theory Spec2Isabelle
  imports Complex_Main "HOL-Library.Multiset"
begin

section \<open>Suffolk Village Signs: the build script (scripts/build.py)\<close>

text \<open>
  A shallow embedding of the pure core of \<^verbatim>\<open>scripts/build.py\<close>: the EXIF helpers, the
  deduplication of photos, the nearest-settlement search and the match-and-export loop of
  \<^verbatim>\<open>build\<close>.

  Conventions of the embedding.
  \<^item> Python floats are idealised as reals; \<^verbatim>\<open>float("inf")\<close> is a separate constructor, and
    so is \<^verbatim>\<open>nan\<close> where the EXIF conversion can produce it. Rounding error is not modelled.
    The coordinates of a loaded photo are numbers: on a \<^verbatim>\<open>nan\<close> coordinate the library's
    distance raises, which is outside the model.
  \<^item> Functions of third-party libraries and of the standard library are parameters:
    \<open>geo\<close> stands for \<^verbatim>\<open>geodesic(a, b).km\<close> of geopy, \<open>strptime\<close> and \<open>strftime\<close> for
    the methods of \<^verbatim>\<open>datetime\<close> with the format of the call site fixed, \<open>stem\<close> for
    \<^verbatim>\<open>Path.stem\<close>, \<open>today\<close> for the formatted \<^verbatim>\<open>datetime.now()\<close>. The distance is taken
    as a total function: coordinates on which the library raises are outside the model.
  \<^item> An exception is a value \<open>Inl e\<close> of the result type.
  \<^item> File input and output are outside the model: \<^verbatim>\<open>build\<close> takes the loaded photos and
    the loaded settlements, and returns what it would write.
\<close>

subsection \<open>Data\<close>

datatype error = IndexError | KeyError | TypeError | ValueError | ZeroDivisionError

type_synonym coords = "real \<times> real"

type_synonym geodesic = "coords \<Rightarrow> coords \<Rightarrow> real"

text \<open>A \<^verbatim>\<open>datetime\<close>, counted in microseconds from \<^verbatim>\<open>datetime.min\<close>.\<close>

type_synonym datetime = nat

definition datetime_min :: datetime where
  "datetime_min = 0"

text \<open>A float that may be \<^verbatim>\<open>float("inf")\<close>, as \<^verbatim>\<open>best_dist\<close> is.\<close>

datatype pyfloat = Finite real | PosInf

fun lt_pyfloat :: "real \<Rightarrow> pyfloat \<Rightarrow> bool" where
  "lt_pyfloat d PosInf = True"
| "lt_pyfloat d (Finite b) = (d < b)"

text \<open>
  The values \<^verbatim>\<open>_to_float\<close> meets in an EXIF block: an object with \<^verbatim>\<open>numerator\<close> and
  \<^verbatim>\<open>denominator\<close> attributes, given by the two (Pillow's IFDRational, which may hold a
  zero denominator; a Fraction or an int is the case of a non-zero one); a tuple of two
  ints; a plain number; and a value on which \<^verbatim>\<open>float()\<close> raises the given exception.
\<close>

datatype exif_val =
    IFDRational int int
  | Tuple2 int int
  | Plain real
  | Unconvertible error

text \<open>The float \<^verbatim>\<open>_to_float\<close> returns: a number, or \<^verbatim>\<open>nan\<close>.\<close>

datatype exif_float = Num real | NaN

record photo =
  path :: string
  img :: nat
  coords :: coords
  datetime :: datetime

record settlement =
  name :: string
  lat :: real
  lon :: real
  place :: string

record visited_entry =
  v_name :: string
  v_lat :: real
  v_lon :: real
  v_photo :: string
  v_date :: "string option"

record unvisited_entry =
  u_name :: string
  u_lat :: real
  u_lon :: real
  u_distance_km :: real

record stats =
  s_visited :: nat
  s_total :: nat
  s_generated :: string

record data =
  d_visited :: "visited_entry list"
  d_unvisited :: "unvisited_entry list"
  d_stats :: stats

subsection \<open>Config\<close>

definition HOME_COORDS :: coords where
  "HOME_COORDS = (52.2355, 0.9014)"

definition DEDUP_RADIUS_M :: real where
  "DEDUP_RADIUS_M = 50"

definition MATCH_RADIUS_KM :: real where
  "MATCH_RADIUS_KM = 1.5"

subsection \<open>EXIF helpers\<close>

definition and_then :: "error + 'a \<Rightarrow> ('a \<Rightarrow> error + 'b) \<Rightarrow> error + 'b" where
  "and_then r f = (case r of Inl e \<Rightarrow> Inl e | Inr x \<Rightarrow> f x)"

text \<open>
  \<^verbatim>\<open>float(val)\<close> of an IFDRational, as the library defines it: \<^verbatim>\<open>nan\<close> for a zero
  denominator, the quotient otherwise.
\<close>

definition float_of_rational :: "int \<Rightarrow> int \<Rightarrow> exif_float" where
  "float_of_rational n d = (if d = 0 then NaN else Num (real_of_int n / real_of_int d))"

text \<open>\<^verbatim>\<open>a / b\<close> on ints: ZeroDivisionError for a zero divisor.\<close>

definition truediv :: "int \<Rightarrow> int \<Rightarrow> error + exif_float" where
  "truediv a b = (if b = 0 then Inl ZeroDivisionError else Inr (Num (real_of_int a / real_of_int b)))"

fun to_float :: "exif_val \<Rightarrow> error + exif_float" where
  "to_float (IFDRational n d) = Inr (float_of_rational n d)"
| "to_float (Tuple2 n d) = (if d \<noteq> 0 then truediv n d else Inr (Num 0))"
| "to_float (Plain r) = Inr (Num r)"
| "to_float (Unconvertible e) = Inl e"

text \<open>Float arithmetic with \<^verbatim>\<open>nan\<close>: a \<^verbatim>\<open>nan\<close> operand gives \<^verbatim>\<open>nan\<close>.\<close>

fun fl_add :: "exif_float \<Rightarrow> exif_float \<Rightarrow> exif_float" where
  "fl_add (Num a) (Num b) = Num (a + b)"
| "fl_add a b = NaN"

fun fl_div :: "exif_float \<Rightarrow> real \<Rightarrow> exif_float" where
  "fl_div (Num a) c = Num (a / c)"
| "fl_div NaN c = NaN"

fun fl_neg :: "exif_float \<Rightarrow> exif_float" where
  "fl_neg (Num a) = Num (- a)"
| "fl_neg NaN = NaN"

text \<open>\<^verbatim>\<open>dms[i]\<close>: an index past the end raises IndexError.\<close>

definition item :: "'a list \<Rightarrow> nat \<Rightarrow> error + 'a" where
  "item xs i = (if i < length xs then Inr (xs ! i) else Inl IndexError)"

definition dms_to_decimal :: "exif_val list \<Rightarrow> string \<Rightarrow> error + exif_float" where
  "dms_to_decimal dms ref =
     and_then (and_then (item dms 0) to_float) (\<lambda>d.
     and_then (and_then (item dms 1) to_float) (\<lambda>m.
     and_then (and_then (item dms 2) to_float) (\<lambda>s.
       let dec = fl_add (fl_add d (fl_div m 60)) (fl_div s 3600)
       in Inr (if ref \<in> {''S'', ''W''} then fl_neg dec else dec))))"

text \<open>
  \<^verbatim>\<open>extract_datetime\<close>: \<open>exif\<close> maps a tag to its string value. The first tag of
  DateTimeOriginal, DateTimeDigitized, DateTime that is present, not empty and parses gives
  the result; \<open>strptime\<close> returns \<open>None\<close> where Python raises ValueError.
\<close>

fun first_parsed :: "(string \<Rightarrow> datetime option) \<Rightarrow> (nat \<rightharpoonup> string) \<Rightarrow> nat list \<Rightarrow> datetime" where
  "first_parsed strptime exif [] = datetime_min"
| "first_parsed strptime exif (tag # tags) =
     (case exif tag of
        None \<Rightarrow> first_parsed strptime exif tags
      | Some val \<Rightarrow>
          if val \<noteq> [] then
            (case strptime val of
               Some t \<Rightarrow> t
             | None \<Rightarrow> first_parsed strptime exif tags)
          else first_parsed strptime exif tags)"

definition extract_datetime :: "(string \<Rightarrow> datetime option) \<Rightarrow> (nat \<rightharpoonup> string) \<Rightarrow> datetime" where
  "extract_datetime strptime exif = first_parsed strptime exif [36867, 36868, 306]"

subsection \<open>Deduplication\<close>

text \<open>
  The inner loop of \<^verbatim>\<open>deduplicate\<close> over the clusters: it returns the flag \<^verbatim>\<open>placed\<close> and
  the clusters, the photo appended to the first cluster whose first member is within
  \<open>DEDUP_RADIUS_M\<close> metres. \<^verbatim>\<open>cluster[0]\<close> raises IndexError on an empty cluster.
\<close>

fun place_photo :: "geodesic \<Rightarrow> photo \<Rightarrow> photo list list \<Rightarrow> error + (bool \<times> photo list list)" where
  "place_photo geo p [] = Inr (False, [])"
| "place_photo geo p (cluster # rest) =
     (case cluster of
        [] \<Rightarrow> Inl IndexError
      | rep # _ \<Rightarrow>
          if geo (coords p) (coords rep) * 1000 \<le> DEDUP_RADIUS_M
          then Inr (True, (cluster @ [p]) # rest)
          else and_then (place_photo geo p rest)
                 (\<lambda>(placed, rest'). Inr (placed, cluster # rest')))"

fun cluster_photos :: "geodesic \<Rightarrow> photo list \<Rightarrow> photo list list \<Rightarrow> error + photo list list" where
  "cluster_photos geo [] clusters = Inr clusters"
| "cluster_photos geo (p # ps) clusters =
     and_then (place_photo geo p clusters)
       (\<lambda>(placed, clusters').
          cluster_photos geo ps (if \<not> placed then clusters' @ [[p]] else clusters'))"

text \<open>
  \<^verbatim>\<open>max(c, key=...)\<close>: the first element with the greatest key; ValueError on an empty
  sequence.
\<close>

fun max_from :: "('a \<Rightarrow> nat) \<Rightarrow> 'a \<Rightarrow> 'a list \<Rightarrow> 'a" where
  "max_from key best [] = best"
| "max_from key best (x # xs) = max_from key (if key best < key x then x else best) xs"

definition py_max :: "('a \<Rightarrow> nat) \<Rightarrow> 'a list \<Rightarrow> error + 'a" where
  "py_max key c = (case c of [] \<Rightarrow> Inl ValueError | x # xs \<Rightarrow> Inr (max_from key x xs))"

fun representatives :: "photo list list \<Rightarrow> error + photo list" where
  "representatives [] = Inr []"
| "representatives (c # cs) =
     and_then (py_max datetime c) (\<lambda>r.
     and_then (representatives cs) (\<lambda>rs. Inr (r # rs)))"

definition deduplicate :: "geodesic \<Rightarrow> photo list \<Rightarrow> error + photo list" where
  "deduplicate geo photos = and_then (cluster_photos geo photos []) representatives"

text \<open>
  The deduplication as the specification words it: the photos are taken in input order;
  a photo joins the first cluster, in creation order, whose first member is within
  \<open>DEDUP_RADIUS_M\<close> metres of it, and starts a new cluster at the end otherwise.
\<close>

definition within_radius :: "geodesic \<Rightarrow> photo \<Rightarrow> photo list \<Rightarrow> bool" where
  "within_radius geo p c = (geo (coords p) (coords (hd c)) * 1000 \<le> DEDUP_RADIUS_M)"

definition assign_spec :: "geodesic \<Rightarrow> photo list list \<Rightarrow> photo \<Rightarrow> photo list list" where
  "assign_spec geo cs p =
     (case dropWhile (\<lambda>c. \<not> within_radius geo p c) cs of
        [] \<Rightarrow> cs @ [[p]]
      | c # later \<Rightarrow> takeWhile (\<lambda>c. \<not> within_radius geo p c) cs @ (c @ [p]) # later)"

definition clusters_spec :: "geodesic \<Rightarrow> photo list \<Rightarrow> photo list list" where
  "clusters_spec geo photos = foldl (assign_spec geo) [] photos"

subsection \<open>Matching\<close>

fun nearest_loop :: "geodesic \<Rightarrow> coords \<Rightarrow> settlement list \<Rightarrow> settlement option \<times> pyfloat
    \<Rightarrow> settlement option \<times> pyfloat" where
  "nearest_loop geo c [] acc = acc"
| "nearest_loop geo c (s # ss) (best, best_dist) =
     (let d = geo c (lat s, lon s)
      in nearest_loop geo c ss (if lt_pyfloat d best_dist then (Some s, Finite d) else (best, best_dist)))"

definition nearest_settlement :: "geodesic \<Rightarrow> coords \<Rightarrow> settlement list \<Rightarrow> settlement option \<times> real option" where
  "nearest_settlement geo c settlements =
     (case nearest_loop geo c settlements (None, PosInf) of
        (best, PosInf) \<Rightarrow> (None, None)
      | (best, Finite best_dist) \<Rightarrow>
          if best_dist \<le> MATCH_RADIUS_KM then (best, Some best_dist) else (None, None))"

text \<open>
  The search as the specification words it: the minimum of the distances to all
  settlements; if it is at most \<open>MATCH_RADIUS_KM\<close>, the first settlement in gazetteer
  order at that distance, with the distance; no match otherwise.
\<close>

definition nearest_spec :: "geodesic \<Rightarrow> coords \<Rightarrow> settlement list \<Rightarrow> settlement option \<times> real option" where
  "nearest_spec geo c settlements =
     (if settlements = [] then (None, None)
      else
        let m = Min (set (map (\<lambda>s. geo c (lat s, lon s)) settlements))
        in if m \<le> MATCH_RADIUS_KM
           then (find (\<lambda>s. geo c (lat s, lon s) = m) settlements, Some m)
           else (None, None))"

subsection \<open>Main build\<close>

text \<open>
  One iteration of the matching loop of \<^verbatim>\<open>build\<close>. The state is \<^verbatim>\<open>visited_names\<close>,
  \<^verbatim>\<open>visited\<close> and the calls of \<^verbatim>\<open>save_web_photo\<close> made so far, each as the output file
  name and the image handle.
\<close>

type_synonym match_state = "string set \<times> visited_entry list \<times> (string \<times> nat) list"

definition match_step :: "geodesic \<Rightarrow> (string \<Rightarrow> string) \<Rightarrow> (datetime \<Rightarrow> string) \<Rightarrow> settlement list
    \<Rightarrow> photo \<Rightarrow> match_state \<Rightarrow> match_state" where
  "match_step geo stem strftime settlements p st =
     (case st of (visited_names, visited, written) \<Rightarrow>
        (case nearest_settlement geo (coords p) settlements of
           (None, dist_km) \<Rightarrow> st
         | (Some s, dist_km) \<Rightarrow>
             if name s \<in> visited_names then st
             else
               let out_name = stem (path p) @ ''.jpg'';
                   date_str = (if datetime p \<noteq> datetime_min then Some (strftime (datetime p)) else None)
               in (insert (name s) visited_names,
                   visited @ [\<lparr>v_name = name s, v_lat = fst (coords p), v_lon = snd (coords p),
                                v_photo = ''photos/'' @ out_name, v_date = date_str\<rparr>],
                   written @ [(out_name, img p)])))"

fun match_photos :: "geodesic \<Rightarrow> (string \<Rightarrow> string) \<Rightarrow> (datetime \<Rightarrow> string) \<Rightarrow> settlement list
    \<Rightarrow> photo list \<Rightarrow> match_state \<Rightarrow> match_state" where
  "match_photos geo stem strftime settlements [] st = st"
| "match_photos geo stem strftime settlements (p # ps) st =
     match_photos geo stem strftime settlements ps (match_step geo stem strftime settlements p st)"

text \<open>\<^verbatim>\<open>round(d, 1)\<close>: to the nearest tenth, a tie to the even one.\<close>

definition py_round1 :: "real \<Rightarrow> real" where
  "py_round1 x =
     (let y = x * 10; f = \<lfloor>y\<rfloor>; r = y - of_int f
      in of_int (if r < 1 / 2 then f else if 1 / 2 < r then f + 1 else if even f then f else f + 1) / 10)"

fun unvisited_list :: "geodesic \<Rightarrow> string set \<Rightarrow> settlement list \<Rightarrow> unvisited_entry list" where
  "unvisited_list geo visited_names [] = []"
| "unvisited_list geo visited_names (s # ss) =
     (if name s \<notin> visited_names
      then \<lparr>u_name = name s, u_lat = lat s, u_lon = lon s,
            u_distance_km = py_round1 (geo HOME_COORDS (lat s, lon s))\<rparr>
           # unvisited_list geo visited_names ss
      else unvisited_list geo visited_names ss)"

text \<open>
  What \<^verbatim>\<open>build\<close> writes: \<^verbatim>\<open>data.json\<close>, the rows of \<^verbatim>\<open>unvisited.csv\<close> under its header,
  and the web photos.
\<close>

record build_output =
  data_json :: data
  csv_rows :: "(string \<times> real) list"
  web_photos :: "(string \<times> nat) list"

definition build :: "geodesic \<Rightarrow> (string \<Rightarrow> string) \<Rightarrow> (datetime \<Rightarrow> string) \<Rightarrow> string
    \<Rightarrow> photo list \<Rightarrow> settlement list \<Rightarrow> error + build_output" where
  "build geo stem strftime today raw settlements =
     and_then (deduplicate geo raw) (\<lambda>photos.
       case match_photos geo stem strftime settlements photos ({}, [], []) of
         (visited_names, visited, written) \<Rightarrow>
           let unvisited = unvisited_list geo visited_names settlements;
               d = \<lparr>d_visited = visited, d_unvisited = unvisited,
                    d_stats = \<lparr>s_visited = length visited,
                             s_total = length visited + length unvisited,
                             s_generated = today\<rparr>\<rparr>;
               sorted_unvisited = sort_key u_distance_km unvisited
           in Inr \<lparr>data_json = d,
                   csv_rows = map (\<lambda>s. (u_name s, u_distance_km s)) sorted_unvisited,
                   web_photos = written\<rparr>)"

text \<open>
  Two notions for stating what the matching loop does: the name of the settlement a photo
  matches, if any, and the \<^verbatim>\<open>visited\<close> entry the loop appends for a photo that claims the
  settlement of that name.
\<close>

definition matched_name :: "geodesic \<Rightarrow> settlement list \<Rightarrow> photo \<Rightarrow> string option" where
  "matched_name geo settlements p =
     (case nearest_settlement geo (coords p) settlements of
        (None, dist_km) \<Rightarrow> None
      | (Some s, dist_km) \<Rightarrow> Some (name s))"

definition entry_of :: "(string \<Rightarrow> string) \<Rightarrow> (datetime \<Rightarrow> string) \<Rightarrow> string \<Rightarrow> photo \<Rightarrow> visited_entry" where
  "entry_of stem strftime n p =
     \<lparr>v_name = n, v_lat = fst (coords p), v_lon = snd (coords p),
      v_photo = ''photos/'' @ stem (path p) @ ''.jpg'',
      v_date = (if datetime p \<noteq> datetime_min then Some (strftime (datetime p)) else None)\<rparr>"

text \<open>
  A stand-in for the library's geodesic distance, for concrete inputs only: the
  city-block distance in degrees, at 111 km a degree. As the library's distance, it is
  zero between equal points and positive between different ones.
\<close>

definition flat_km :: geodesic where
  "flat_km a b = 111 * (\<bar>fst a - fst b\<bar> + \<bar>snd a - snd b\<bar>)"

subsection \<open>Example data\<close>

definition example_photo :: "string \<Rightarrow> coords \<Rightarrow> datetime \<Rightarrow> photo" where
  "example_photo file c t = \<lparr>path = file, img = 0, coords = c, datetime = t\<rparr>"

definition example_settlement :: "string \<Rightarrow> real \<Rightarrow> real \<Rightarrow> settlement" where
  "example_settlement n la lo = \<lparr>name = n, lat = la, lon = lo, place = ''village''\<rparr>"

definition example_stem :: "string \<Rightarrow> string" where
  "example_stem file = takeWhile (\<lambda>ch. ch \<noteq> CHR ''.'') file"

definition example_strftime :: "datetime \<Rightarrow> string" where
  "example_strftime t = ''2024-06-01''"

definition example_raw :: "photo list" where
  "example_raw =
     [example_photo ''a.jpg'' (52.001, 1) 9, example_photo ''b.jpg'' (52.002, 1) 0,
      example_photo ''c.jpg'' (52.0011, 1) 12]"

definition example_gazetteer :: "settlement list" where
  "example_gazetteer =
     [example_settlement ''Acton'' 52 1, example_settlement ''Boxted'' 52.3 0.9,
      example_settlement ''Cavendish'' 52.25 0.9]"

definition example_output :: build_output where
  "example_output =
     \<lparr>data_json =
        \<lparr>d_visited = [\<lparr>v_name = ''Acton'', v_lat = 52.0011, v_lon = 1,
                       v_photo = ''photos/c.jpg'', v_date = Some ''2024-06-01''\<rparr>],
         d_unvisited = [\<lparr>u_name = ''Boxted'', u_lat = 52.3, u_lon = 0.9, u_distance_km = 7.3\<rparr>,
                        \<lparr>u_name = ''Cavendish'', u_lat = 52.25, u_lon = 0.9, u_distance_km = 1.8\<rparr>],
         d_stats = \<lparr>s_visited = 1, s_total = 3, s_generated = ''2024-06-02''\<rparr>\<rparr>,
      csv_rows = [(''Cavendish'', 1.8), (''Boxted'', 7.3)],
      web_photos = [(''c.jpg'', 0)]\<rparr>"

section \<open>Properties\<close>

subsection \<open>EXIF helpers\<close>

lemma dms_to_decimal_eval:
  assumes "to_float a = Inr (Num d)" and "to_float b = Inr (Num m)" and "to_float c = Inr (Num s)"
  shows "dms_to_decimal (a # b # c # rest) ref =
           Inr (Num (if ref = ''S'' \<or> ref = ''W'' then - (d + m / 60 + s / 3600) else d + m / 60 + s / 3600))"
  using assms by (simp add: dms_to_decimal_def and_then_def item_def Let_def)

text \<open>
  C6. Where the three values convert to \<open>d\<close>, \<open>m\<close> and \<open>s\<close>, \<^verbatim>\<open>_dms_to_decimal\<close> returns
  \<open>d + m/60 + s/3600\<close>, negated exactly when the reference is "S" or "W". For non-negative
  \<open>d\<close>, \<open>m\<close>, \<open>s\<close> the result is at most 0 for "S" and "W" and at least 0 for "N" and "E".
  The fixture 52 deg 14 min 7.8 s N, 0 deg 54 min 5.0 s E converts to within 1e-4 of
  (52.2355, 0.9014).
\<close>

theorem dms_to_decimal_correct:
  "(to_float a = Inr (Num d) \<and> to_float b = Inr (Num m) \<and> to_float c = Inr (Num s) \<longrightarrow>
      dms_to_decimal (a # b # c # rest) ref =
        Inr (Num (if ref = ''S'' \<or> ref = ''W'' then - (d + m / 60 + s / 3600) else d + m / 60 + s / 3600))
      \<and> (0 \<le> d \<and> 0 \<le> m \<and> 0 \<le> s \<and> (ref = ''S'' \<or> ref = ''W'') \<longrightarrow>
           (\<exists>r. dms_to_decimal (a # b # c # rest) ref = Inr (Num r) \<and> r \<le> 0))
      \<and> (0 \<le> d \<and> 0 \<le> m \<and> 0 \<le> s \<and> (ref = ''N'' \<or> ref = ''E'') \<longrightarrow>
           (\<exists>r. dms_to_decimal (a # b # c # rest) ref = Inr (Num r) \<and> 0 \<le> r)))
   \<and> (\<exists>la lo. dms_to_decimal [Plain 52, Plain 14, Plain 7.8] ''N'' = Inr (Num la)
          \<and> dms_to_decimal [Plain 0, Plain 54, Plain 5] ''E'' = Inr (Num lo)
          \<and> \<bar>la - 52.2355\<bar> \<le> 1 / 10000 \<and> \<bar>lo - 0.9014\<bar> \<le> 1 / 10000)"
proof (intro conjI impI)
  assume h: "to_float a = Inr (Num d) \<and> to_float b = Inr (Num m) \<and> to_float c = Inr (Num s)"
  then show v: "dms_to_decimal (a # b # c # rest) ref =
        Inr (Num (if ref = ''S'' \<or> ref = ''W'' then - (d + m / 60 + s / 3600) else d + m / 60 + s / 3600))"
    by (simp add: dms_to_decimal_eval)
  {
    assume "0 \<le> d \<and> 0 \<le> m \<and> 0 \<le> s \<and> (ref = ''S'' \<or> ref = ''W'')"
    then show "\<exists>r. dms_to_decimal (a # b # c # rest) ref = Inr (Num r) \<and> r \<le> 0"
      using v by auto
  }
  {
    assume "0 \<le> d \<and> 0 \<le> m \<and> 0 \<le> s \<and> (ref = ''N'' \<or> ref = ''E'')"
    then show "\<exists>r. dms_to_decimal (a # b # c # rest) ref = Inr (Num r) \<and> 0 \<le> r"
      using v by auto
  }
next
  show "\<exists>la lo. dms_to_decimal [Plain 52, Plain 14, Plain 7.8] ''N'' = Inr (Num la)
          \<and> dms_to_decimal [Plain 0, Plain 54, Plain 5] ''E'' = Inr (Num lo)
          \<and> \<bar>la - 52.2355\<bar> \<le> 1 / 10000 \<and> \<bar>lo - 0.9014\<bar> \<le> 1 / 10000"
  proof (intro exI conjI)
    show "dms_to_decimal [Plain 52, Plain 14, Plain 7.8] ''N'' = Inr (Num (104471 / 2000))"
      by (simp add: dms_to_decimal_def and_then_def item_def Let_def)
    show "dms_to_decimal [Plain 0, Plain 54, Plain 5] ''E'' = Inr (Num (649 / 720))"
      by (simp add: dms_to_decimal_def and_then_def item_def Let_def)
    show "\<bar>104471 / 2000 - 52.2355\<bar> \<le> (1 / 10000 :: real)" by simp
    show "\<bar>649 / 720 - 0.9014\<bar> \<le> (1 / 10000 :: real)" by simp
  qed
qed

theorem dms_to_decimal_correct_witness:
  "to_float (Tuple2 52 1) = Inr (Num 52) \<and> to_float (Tuple2 14 1) = Inr (Num 14)
   \<and> to_float (Tuple2 78 10) = Inr (Num (39 / 5))
   \<and> dms_to_decimal [Tuple2 52 1, Tuple2 14 1, Tuple2 78 10] ''S'' = Inr (Num (- (104471 / 2000)))
   \<and> dms_to_decimal [Tuple2 52 1, Tuple2 14 1, Tuple2 78 10] ''N'' = Inr (Num (104471 / 2000))"
  using dms_to_decimal_correct [of "Tuple2 52 1" 52 "Tuple2 14 1" 14 "Tuple2 78 10" "39 / 5" "[]" "''S''"]
    dms_to_decimal_correct [of "Tuple2 52 1" 52 "Tuple2 14 1" 14 "Tuple2 78 10" "39 / 5" "[]" "''N''"]
  by (simp add: truediv_def)

text \<open>
  C7. What \<^verbatim>\<open>_to_float\<close> does with a rational of zero denominator depends on how the
  rational arrives. A (numerator, denominator) tuple takes the guarded branch and gives 0.
  An IFDRational has \<^verbatim>\<open>numerator\<close> and \<^verbatim>\<open>denominator\<close> attributes, so it takes the first
  branch, \<^verbatim>\<open>float(val)\<close>, which gives \<^verbatim>\<open>nan\<close> and not 0; the \<^verbatim>\<open>nan\<close> passes through
  \<^verbatim>\<open>_dms_to_decimal\<close> into the coordinates. Neither branch raises, and with a non-zero
  denominator both give the quotient.
\<close>

theorem to_float_zero_denominator:
  "to_float (IFDRational 7 0) = Inr NaN
   \<and> to_float (Tuple2 7 0) = Inr (Num 0)
   \<and> to_float (IFDRational n 0) = Inr NaN
   \<and> to_float (Tuple2 n 0) = Inr (Num 0)
   \<and> dms_to_decimal [IFDRational 52 1, IFDRational 14 1, IFDRational 7 0] ''N'' = Inr NaN
   \<and> dms_to_decimal [Tuple2 52 1, Tuple2 14 1, Tuple2 7 0] ''N'' = Inr (Num (1567 / 30))
   \<and> to_float (IFDRational 7 2) = Inr (Num (7 / 2))
   \<and> to_float (Tuple2 7 2) = Inr (Num (7 / 2))
   \<and> (\<exists>r. to_float (IFDRational n d) = Inr r)
   \<and> (\<exists>r. to_float (Tuple2 n d) = Inr r)"
  by (simp add: dms_to_decimal_def and_then_def item_def Let_def float_of_rational_def truediv_def)

subsection \<open>Deduplication\<close>

lemma max_from_split:
  "(\<forall>y\<in>set pre. key y < key b) \<Longrightarrow> (\<forall>z\<in>set mid. key z \<le> key b) \<Longrightarrow>
   \<exists>ys zs. pre @ b # mid @ xs = ys @ max_from key b xs # zs
     \<and> (\<forall>y\<in>set ys. key y < key (max_from key b xs))
     \<and> (\<forall>z\<in>set zs. key z \<le> key (max_from key b xs))"
proof (induction xs arbitrary: pre b mid)
  case Nil
  then show ?case by auto
next
  case (Cons x xs)
  show ?case
  proof (cases "key b < key x")
    case True
    have "\<forall>y\<in>set (pre @ b # mid). key y < key x"
      using Cons.prems True by fastforce
    from Cons.IH [OF this, of "[]"] True show ?thesis by simp
  next
    case False
    have "\<forall>z\<in>set (mid @ [x]). key z \<le> key b"
      using Cons.prems False by auto
    from Cons.IH [OF Cons.prems(1) this] False show ?thesis by simp
  qed
qed

lemma py_max_first_latest:
  assumes "c \<noteq> []"
  shows "\<exists>r ys zs. py_max key c = Inr r \<and> c = ys @ r # zs
     \<and> (\<forall>y\<in>set ys. key y < key r) \<and> (\<forall>z\<in>set zs. key z \<le> key r)"
proof -
  from assms obtain x xs where c: "c = x # xs" by (cases c) auto
  from max_from_split [of "[]" key x "[]" xs] show ?thesis
    by (simp add: c py_max_def)
qed

lemma place_photo_none:
  "\<forall>c\<in>set cs. c \<noteq> [] \<Longrightarrow> \<forall>c\<in>set cs. \<not> within_radius geo p c \<Longrightarrow>
   place_photo geo p cs = Inr (False, cs)"
proof (induction cs)
  case Nil
  then show ?case by simp
next
  case (Cons c cs)
  then obtain rep more where c: "c = rep # more" by (cases c) auto
  from Cons have "place_photo geo p cs = Inr (False, cs)" by simp
  moreover from Cons.prems have "\<not> geo (coords p) (coords rep) * 1000 \<le> DEDUP_RADIUS_M"
    by (simp add: c within_radius_def)
  ultimately show ?case by (simp add: c and_then_def)
qed

lemma place_photo_first:
  "\<forall>c\<in>set cs. c \<noteq> [] \<Longrightarrow> dropWhile (\<lambda>c. \<not> within_radius geo p c) cs = c # later \<Longrightarrow>
   place_photo geo p cs =
     Inr (True, takeWhile (\<lambda>c. \<not> within_radius geo p c) cs @ (c @ [p]) # later)"
proof (induction cs)
  case Nil
  then show ?case by simp
next
  case (Cons a cs)
  then obtain rep more where a: "a = rep # more" by (cases a) auto
  show ?case
  proof (cases "within_radius geo p a")
    case True
    with Cons.prems have ca: "c = a" and l: "later = cs" by simp_all
    from True show ?thesis unfolding ca l a by (simp add: within_radius_def)
  next
    case False
    with Cons.prems have d: "dropWhile (\<lambda>c. \<not> within_radius geo p c) cs = c # later" by simp
    from Cons.prems have "\<forall>c\<in>set cs. c \<noteq> []" by simp
    from Cons.IH [OF this d] False show ?thesis
      by (simp add: a within_radius_def and_then_def)
  qed
qed

lemma cluster_step_spec:
  assumes "\<forall>c\<in>set cs. c \<noteq> []"
  shows "\<exists>placed cs'. place_photo geo p cs = Inr (placed, cs')
           \<and> (if \<not> placed then cs' @ [[p]] else cs') = assign_spec geo cs p"
proof (cases "dropWhile (\<lambda>c. \<not> within_radius geo p c) cs")
  case Nil
  then have "\<forall>c\<in>set cs. \<not> within_radius geo p c" by simp
  from place_photo_none [OF assms this] show ?thesis
    unfolding assign_spec_def Nil by (intro exI [of _ False] exI [of _ cs]) simp
next
  case (Cons c later)
  from place_photo_first [OF assms Cons] show ?thesis
    unfolding assign_spec_def Cons
    by (intro exI [of _ True] exI [of _ "takeWhile (\<lambda>c. \<not> within_radius geo p c) cs @ (c @ [p]) # later"]) simp
qed

lemma assign_spec_nonempty:
  assumes "\<forall>c\<in>set cs. c \<noteq> []"
  shows "\<forall>c\<in>set (assign_spec geo cs p). c \<noteq> []"
proof (cases "dropWhile (\<lambda>c. \<not> within_radius geo p c) cs")
  case Nil
  show ?thesis unfolding assign_spec_def Nil using assms by simp
next
  case (Cons c later)
  have "\<And>x. x \<in> set (takeWhile (\<lambda>c. \<not> within_radius geo p c) cs) \<Longrightarrow> x \<in> set cs"
    by (rule set_takeWhileD [THEN conjunct1])
  moreover have "\<And>x. x \<in> set later \<Longrightarrow> x \<in> set cs"
    using set_dropWhileD [of _ "\<lambda>c. \<not> within_radius geo p c" cs] Cons by auto
  ultimately show ?thesis unfolding assign_spec_def Cons using assms by auto
qed

lemma foldl_assign_nonempty:
  "\<forall>c\<in>set cs. c \<noteq> [] \<Longrightarrow> \<forall>c\<in>set (foldl (assign_spec geo) cs ps). c \<noteq> []"
proof (induction ps arbitrary: cs)
  case Nil
  then show ?case by simp
next
  case (Cons p ps)
  from Cons.IH [OF assign_spec_nonempty [OF Cons.prems]] show ?case by simp
qed

lemma cluster_photos_spec:
  "\<forall>c\<in>set cs. c \<noteq> [] \<Longrightarrow> cluster_photos geo ps cs = Inr (foldl (assign_spec geo) cs ps)"
proof (induction ps arbitrary: cs)
  case Nil
  then show ?case by simp
next
  case (Cons p ps)
  from cluster_step_spec [OF Cons.prems, of geo p]
  obtain placed cs' where s: "place_photo geo p cs = Inr (placed, cs')"
    and e: "(if \<not> placed then cs' @ [[p]] else cs') = assign_spec geo cs p" by blast
  have "cluster_photos geo (p # ps) cs = cluster_photos geo ps (assign_spec geo cs p)"
    using s e by (simp add: and_then_def)
  also have "\<dots> = Inr (foldl (assign_spec geo) (assign_spec geo cs p) ps)"
    by (rule Cons.IH [OF assign_spec_nonempty [OF Cons.prems]])
  finally show ?case by simp
qed

lemma representatives_spec:
  "\<forall>c\<in>set cs. c \<noteq> [] \<Longrightarrow>
   \<exists>rs. representatives cs = Inr rs \<and> list_all2 (\<lambda>r c. py_max datetime c = Inr r) rs cs"
proof (induction cs)
  case Nil
  then show ?case by simp
next
  case (Cons c cs)
  then obtain rs where rs: "representatives cs = Inr rs"
    "list_all2 (\<lambda>r c. py_max datetime c = Inr r) rs cs" by auto
  from Cons.prems have "c \<noteq> []" by simp
  from py_max_first_latest [OF this, of datetime] obtain r where "py_max datetime c = Inr r" by blast
  with rs show ?case by (simp add: and_then_def)
qed

lemma deduplicate_spec:
  "\<exists>rs. deduplicate geo photos = Inr rs
     \<and> list_all2 (\<lambda>r c. py_max datetime c = Inr r) rs (clusters_spec geo photos)"
proof -
  have ne: "\<forall>c\<in>set (clusters_spec geo photos). c \<noteq> []"
    unfolding clusters_spec_def by (rule foldl_assign_nonempty) simp
  have "cluster_photos geo photos [] = Inr (clusters_spec geo photos)"
    unfolding clusters_spec_def by (rule cluster_photos_spec) simp
  with representatives_spec [OF ne] show ?thesis
    by (simp add: deduplicate_def and_then_def)
qed

text \<open>
  C3. \<^verbatim>\<open>deduplicate\<close> always returns, and its output holds one representative for each
  cluster of \<open>clusters_spec\<close>, in the order the clusters were created: photos are taken in
  input order, each compared with the first member of every cluster in creation order,
  joining the first within 50 m and starting a new cluster otherwise. Of two photos more
  than 50 m apart, both are retained.
\<close>

theorem deduplicate_clusters:
  "(\<exists>rs. deduplicate geo photos = Inr rs
      \<and> list_all2 (\<lambda>r c. py_max datetime c = Inr r) rs (clusters_spec geo photos))
   \<and> (DEDUP_RADIUS_M < geo (coords q) (coords p) * 1000 \<longrightarrow> deduplicate geo [p, q] = Inr [p, q])"
proof (intro conjI impI)
  show "\<exists>rs. deduplicate geo photos = Inr rs
      \<and> list_all2 (\<lambda>r c. py_max datetime c = Inr r) rs (clusters_spec geo photos)"
    by (rule deduplicate_spec)
next
  assume "DEDUP_RADIUS_M < geo (coords q) (coords p) * 1000"
  then show "deduplicate geo [p, q] = Inr [p, q]"
    by (simp add: deduplicate_def and_then_def py_max_def)
qed

theorem deduplicate_clusters_witness:
  "DEDUP_RADIUS_M < flat_km (coords (example_photo ''b.jpg'' (52.001, 1) 7)) (coords (example_photo ''a.jpg'' (52, 1) 9)) * 1000
   \<and> deduplicate flat_km [example_photo ''a.jpg'' (52, 1) 9, example_photo ''b.jpg'' (52.001, 1) 7]
       = Inr [example_photo ''a.jpg'' (52, 1) 9, example_photo ''b.jpg'' (52.001, 1) 7]"
  using deduplicate_clusters [of flat_km "[]" "example_photo ''b.jpg'' (52.001, 1) 7" "example_photo ''a.jpg'' (52, 1) 9"]
  by (simp add: flat_km_def DEDUP_RADIUS_M_def example_photo_def)

text \<open>
  C4. The representative of a non-empty cluster is the member with the greatest capture
  time, the first such member in encounter order: every earlier member is strictly older
  and no later member is newer. This is the representative \<^verbatim>\<open>deduplicate\<close> returns for
  each cluster. \<^verbatim>\<open>extract_datetime\<close> returns the sentinel \<^verbatim>\<open>datetime.min\<close> when no tag is
  present and parses; the sentinel is below or equal to every capture time, and a member
  carrying it is never the representative of a cluster that has a member with a capture
  time other than the sentinel.
\<close>

theorem representative_latest:
  "(c \<noteq> [] \<longrightarrow>
      (\<exists>r ys zs. py_max datetime c = Inr r \<and> c = ys @ r # zs
         \<and> (\<forall>y\<in>set ys. datetime y < datetime r) \<and> (\<forall>z\<in>set zs. datetime z \<le> datetime r)
         \<and> (\<forall>u\<in>set c. \<forall>k\<in>set c. datetime u = datetime_min \<and> datetime k \<noteq> datetime_min \<longrightarrow> r \<noteq> u)))
   \<and> (\<exists>rs. deduplicate geo photos = Inr rs
         \<and> list_all2 (\<lambda>r c. \<exists>ys zs. c = ys @ r # zs
               \<and> (\<forall>y\<in>set ys. datetime y < datetime r) \<and> (\<forall>z\<in>set zs. datetime z \<le> datetime r))
             rs (clusters_spec geo photos))
   \<and> ((\<forall>tag\<in>set [36867, 36868, 306].
          case exif tag of None \<Rightarrow> True | Some val \<Rightarrow> val = [] \<or> strptime val = None)
        \<longrightarrow> extract_datetime strptime exif = datetime_min)
   \<and> datetime_min \<le> t"
proof (intro conjI impI)
  assume "c \<noteq> []"
  from py_max_first_latest [OF this, of datetime]
  obtain r ys zs where r: "py_max datetime c = Inr r" "c = ys @ r # zs"
    "\<forall>y\<in>set ys. datetime y < datetime r" "\<forall>z\<in>set zs. datetime z \<le> datetime r" by blast
  have "\<forall>x\<in>set c. datetime x \<le> datetime r"
    using r(2,3,4) by (auto simp: less_imp_le)
  then have "\<forall>u\<in>set c. \<forall>k\<in>set c. datetime u = datetime_min \<and> datetime k \<noteq> datetime_min \<longrightarrow> r \<noteq> u"
    by (auto simp: datetime_min_def)
  with r show "\<exists>r ys zs. py_max datetime c = Inr r \<and> c = ys @ r # zs
         \<and> (\<forall>y\<in>set ys. datetime y < datetime r) \<and> (\<forall>z\<in>set zs. datetime z \<le> datetime r)
         \<and> (\<forall>u\<in>set c. \<forall>k\<in>set c. datetime u = datetime_min \<and> datetime k \<noteq> datetime_min \<longrightarrow> r \<noteq> u)"
    by blast
next
  from deduplicate_spec [of geo photos] obtain rs where rs: "deduplicate geo photos = Inr rs"
    "list_all2 (\<lambda>r c. py_max datetime c = Inr r) rs (clusters_spec geo photos)" by blast
  have "list_all2 (\<lambda>r c. \<exists>ys zs. c = ys @ r # zs
               \<and> (\<forall>y\<in>set ys. datetime y < datetime r) \<and> (\<forall>z\<in>set zs. datetime z \<le> datetime r))
             rs (clusters_spec geo photos)"
  proof (rule list_all2_mono [OF rs(2)])
    fix r :: photo and c :: "photo list"
    assume m: "py_max datetime c = Inr r"
    then have "c \<noteq> []" by (auto simp: py_max_def)
    from py_max_first_latest [OF this, of datetime] m
    show "\<exists>ys zs. c = ys @ r # zs
               \<and> (\<forall>y\<in>set ys. datetime y < datetime r) \<and> (\<forall>z\<in>set zs. datetime z \<le> datetime r)"
      by auto
  qed
  with rs(1) show "\<exists>rs. deduplicate geo photos = Inr rs
         \<and> list_all2 (\<lambda>r c. \<exists>ys zs. c = ys @ r # zs
               \<and> (\<forall>y\<in>set ys. datetime y < datetime r) \<and> (\<forall>z\<in>set zs. datetime z \<le> datetime r))
             rs (clusters_spec geo photos)" by blast
next
  assume "\<forall>tag\<in>set [36867, 36868, 306].
          case exif tag of None \<Rightarrow> True | Some val \<Rightarrow> val = [] \<or> strptime val = None"
  then show "extract_datetime strptime exif = datetime_min"
    by (auto simp: extract_datetime_def split: option.splits)
next
  show "datetime_min \<le> t" by (simp add: datetime_min_def)
qed

theorem representative_latest_witness:
  "[example_photo ''a.jpg'' (52, 1) datetime_min, example_photo ''b.jpg'' (52, 1) 5,
    example_photo ''c.jpg'' (52, 1) 5] \<noteq> []
   \<and> py_max datetime [example_photo ''a.jpg'' (52, 1) datetime_min, example_photo ''b.jpg'' (52, 1) 5,
        example_photo ''c.jpg'' (52, 1) 5] = Inr (example_photo ''b.jpg'' (52, 1) 5)
   \<and> extract_datetime (\<lambda>v. None) [36867 \<mapsto> ''garbled''] = datetime_min"
  using representative_latest [where c = "[example_photo ''a.jpg'' (52, 1) datetime_min,
        example_photo ''b.jpg'' (52, 1) 5, example_photo ''c.jpg'' (52, 1) 5]"
      and exif = "[36867 \<mapsto> ''garbled'']" and strptime = "\<lambda>v. None"]
  by (simp add: py_max_def example_photo_def datetime_min_def extract_datetime_def)

subsection \<open>Matching\<close>

lemma Min_Cons_less:
  assumes "xs \<noteq> []" and "Min (f ` set xs) < f x"
  shows "Min (f ` set (x # xs)) = Min (f ` set xs)"
proof -
  have "Min (insert (f x) (f ` set xs)) = min (f x) (Min (f ` set xs))"
    by (rule Min_insert) (use assms(1) in auto)
  also have "\<dots> = Min (f ` set xs)"
    by (rule min.absorb2 [OF less_imp_le [OF assms(2)]])
  finally show ?thesis by (simp only: list.set image_insert)
qed

lemma nearest_loop_finite:
  "nearest_loop geo c ss (b, Finite bd) =
     (if \<exists>s\<in>set ss. geo c (lat s, lon s) < bd
      then (find (\<lambda>s. geo c (lat s, lon s) = Min ((\<lambda>s. geo c (lat s, lon s)) ` set ss)) ss,
            Finite (Min ((\<lambda>s. geo c (lat s, lon s)) ` set ss)))
      else (b, Finite bd))"
proof (induction ss arbitrary: b bd)
  case Nil
  then show ?case by simp
next
  case (Cons s ss)
  let ?D = "\<lambda>s. geo c (lat s, lon s)"
  show ?case
  proof (cases "\<exists>t\<in>set ss. ?D t < min (?D s) bd")
    case True
    then obtain t where t: "t \<in> set ss" "?D t < ?D s" "?D t < bd" by auto
    have "Min (?D ` set ss) \<le> ?D t" using t(1) by (intro Min_le) auto
    then have lt: "Min (?D ` set ss) < ?D s" using t(2) by simp
    from t(1) have "ss \<noteq> []" by auto
    from Min_Cons_less [OF this lt] have m: "Min (?D ` set (s # ss)) = Min (?D ` set ss)" .
    from lt have ne: "?D s \<noteq> Min (?D ` set ss)" by simp
    have ex: "\<exists>t\<in>set (s # ss). ?D t < bd" using t by auto
    have ex1: "\<exists>t\<in>set ss. ?D t < bd" using t by auto
    have ex2: "\<exists>t\<in>set ss. ?D t < ?D s" using t by auto
    show ?thesis
      unfolding m using ex ex1 ex2 ne Cons.IH by (simp add: Let_def)
  next
    case False
    then have all: "\<forall>t\<in>set ss. min (?D s) bd \<le> ?D t" by auto
    show ?thesis
    proof (cases "?D s < bd")
      case True
      with all have a: "\<forall>t\<in>set ss. ?D s \<le> ?D t" by auto
      then have m: "Min (?D ` set (s # ss)) = ?D s"
        by (intro Min_eqI) auto
      from a have nex: "\<not> (\<exists>t\<in>set ss. ?D t < ?D s)" by auto
      show ?thesis unfolding m using True nex Cons.IH by (simp add: Let_def)
    next
      case False
      with all have "\<forall>t\<in>set ss. bd \<le> ?D t" by auto
      then have nex: "\<not> (\<exists>t\<in>set ss. ?D t < bd)" by auto
      with False have nex': "\<not> (\<exists>t\<in>set (s # ss). ?D t < bd)" by auto
      show ?thesis using False nex nex' Cons.IH by (simp add: Let_def)
    qed
  qed
qed

lemma nearest_loop_start:
  "ss \<noteq> [] \<Longrightarrow>
   nearest_loop geo c ss (None, PosInf) =
     (find (\<lambda>s. geo c (lat s, lon s) = Min ((\<lambda>s. geo c (lat s, lon s)) ` set ss)) ss,
      Finite (Min ((\<lambda>s. geo c (lat s, lon s)) ` set ss)))"
proof (cases ss)
  case Nil
  assume "ss \<noteq> []"
  with Nil show ?thesis by simp
next
  case (Cons s rest)
  let ?D = "\<lambda>s. geo c (lat s, lon s)"
  show ?thesis
  proof (cases "\<exists>t\<in>set rest. ?D t < ?D s")
    case True
    then obtain t where t: "t \<in> set rest" "?D t < ?D s" by auto
    have "Min (?D ` set rest) \<le> ?D t" using t(1) by (intro Min_le) auto
    then have lt: "Min (?D ` set rest) < ?D s" using t(2) by simp
    from t(1) have "rest \<noteq> []" by auto
    from Min_Cons_less [OF this lt] have m: "Min (?D ` set (s # rest)) = Min (?D ` set rest)" .
    from lt have ne: "?D s \<noteq> Min (?D ` set rest)" by simp
    show ?thesis unfolding Cons m using True ne by (simp add: nearest_loop_finite)
  next
    case False
    then have a: "\<forall>t\<in>set rest. ?D s \<le> ?D t" by auto
    then have m: "Min (?D ` set (s # rest)) = ?D s"
      by (intro Min_eqI) auto
    show ?thesis unfolding Cons m using False by (simp add: nearest_loop_finite)
  qed
qed

lemma nearest_settlement_spec:
  "nearest_settlement geo c ss = nearest_spec geo c ss"
proof (cases "ss = []")
  case True
  then show ?thesis by (simp add: nearest_settlement_def nearest_spec_def)
next
  case False
  then show ?thesis
    by (simp add: nearest_settlement_def nearest_spec_def nearest_loop_start Let_def)
qed


lemma nearest_spec_Some:
  assumes "nearest_spec geo c ss = (b, Some d)"
  shows "\<exists>i<length ss. b = Some (ss ! i) \<and> d = geo c (lat (ss ! i), lon (ss ! i))
           \<and> d \<le> MATCH_RADIUS_KM
           \<and> (\<forall>j<i. geo c (lat (ss ! j), lon (ss ! j)) \<noteq> d)
           \<and> (\<forall>t\<in>set ss. d \<le> geo c (lat t, lon t))"
proof -
  let ?D = "\<lambda>s. geo c (lat s, lon s)"
  let ?m = "Min (?D ` set ss)"
  from assms have ne: "ss \<noteq> []" by (auto simp: nearest_spec_def)
  with assms have le: "?m \<le> MATCH_RADIUS_KM"
    by (auto simp: nearest_spec_def Let_def split: if_splits)
  with assms ne have d: "d = ?m" and b: "b = find (\<lambda>s. ?D s = ?m) ss"
    by (auto simp: nearest_spec_def Let_def)
  have "?m \<in> ?D ` set ss" using ne by (intro Min_in) auto
  then obtain s where s: "s \<in> set ss" "?D s = ?m" by auto
  then have "find (\<lambda>s. ?D s = ?m) ss \<noteq> None" by (auto simp: find_None_iff)
  then obtain x where x: "find (\<lambda>s. ?D s = ?m) ss = Some x" by auto
  then obtain i where i: "i < length ss" "?D (ss ! i) = ?m" "x = ss ! i"
    "\<forall>j<i. ?D (ss ! j) \<noteq> ?m" by (auto simp: find_Some_iff)
  have "\<forall>t\<in>set ss. ?m \<le> ?D t" by (auto intro: Min_le)
  with i x b d le show ?thesis by auto
qed

text \<open>
  C2. \<^verbatim>\<open>nearest_settlement\<close> computes \<open>nearest_spec\<close>: it scans all settlements for the
  minimum distance and returns a settlement with its distance if and only if some
  settlement is within \<open>MATCH_RADIUS_KM\<close> = 1.5 km, the bound included. The settlement
  returned is at the minimum distance and is the first such in gazetteer order. Where the
  library's distance is never negative and is zero from a point to itself, a point at the
  coordinates of a settlement matches the first settlement at distance zero, with distance
  0; a point farther than 1.5 km from every settlement matches none.
\<close>

theorem nearest_settlement_correct:
  "nearest_settlement geo c ss = nearest_spec geo c ss
   \<and> ((nearest_settlement geo c ss \<noteq> (None, None))
        = (\<exists>s\<in>set ss. geo c (lat s, lon s) \<le> MATCH_RADIUS_KM))
   \<and> (\<forall>b d. nearest_settlement geo c ss = (b, Some d) \<longrightarrow>
        (\<exists>i<length ss. b = Some (ss ! i) \<and> d = geo c (lat (ss ! i), lon (ss ! i))
           \<and> d \<le> MATCH_RADIUS_KM
           \<and> (\<forall>j<i. geo c (lat (ss ! j), lon (ss ! j)) \<noteq> d)
           \<and> (\<forall>t\<in>set ss. d \<le> geo c (lat t, lon t))))
   \<and> ((\<forall>a b. 0 \<le> geo a b) \<and> i < length ss \<and> (lat (ss ! i), lon (ss ! i)) = c \<and> geo c c = 0
        \<and> (\<forall>j<i. geo c (lat (ss ! j), lon (ss ! j)) \<noteq> 0)
        \<longrightarrow> nearest_settlement geo c ss = (Some (ss ! i), Some 0))
   \<and> ((\<forall>s\<in>set ss. MATCH_RADIUS_KM < geo c (lat s, lon s))
        \<longrightarrow> nearest_settlement geo c ss = (None, None))"
proof (intro conjI impI allI)
  let ?D = "\<lambda>s. geo c (lat s, lon s)"
  show "nearest_settlement geo c ss = nearest_spec geo c ss"
    by (rule nearest_settlement_spec)
  show "(nearest_settlement geo c ss \<noteq> (None, None)) = (\<exists>s\<in>set ss. ?D s \<le> MATCH_RADIUS_KM)"
  proof (cases "ss = []")
    case True
    then show ?thesis by (simp add: nearest_settlement_spec nearest_spec_def)
  next
    case False
    then have "(Min (?D ` set ss) \<le> MATCH_RADIUS_KM) = (\<exists>s\<in>set ss. ?D s \<le> MATCH_RADIUS_KM)"
      by (simp add: Min_le_iff)
    with False show ?thesis
      by (simp add: nearest_settlement_spec nearest_spec_def Let_def)
  qed
  {
    fix b d
    assume "nearest_settlement geo c ss = (b, Some d)"
    then have "nearest_spec geo c ss = (b, Some d)" by (simp add: nearest_settlement_spec)
    then show "\<exists>i<length ss. b = Some (ss ! i) \<and> d = ?D (ss ! i)
           \<and> d \<le> MATCH_RADIUS_KM
           \<and> (\<forall>j<i. ?D (ss ! j) \<noteq> d)
           \<and> (\<forall>t\<in>set ss. d \<le> ?D t)"
      by (rule nearest_spec_Some)
  }
  {
    assume h: "(\<forall>a b. 0 \<le> geo a b) \<and> i < length ss \<and> (lat (ss ! i), lon (ss ! i)) = c \<and> geo c c = 0
        \<and> (\<forall>j<i. geo c (lat (ss ! j), lon (ss ! j)) \<noteq> 0)"
    then have ne: "ss \<noteq> []" by auto
    from h have z: "?D (ss ! i) = 0" by simp
    have m: "Min (?D ` set ss) = 0"
    proof (rule Min_eqI)
      show "finite (?D ` set ss)" by simp
      show "\<And>y. y \<in> ?D ` set ss \<Longrightarrow> 0 \<le> y" using h by auto
      show "0 \<in> ?D ` set ss" using h z by (metis (mono_tags, lifting) image_eqI nth_mem)
    qed
    have "find (\<lambda>s. ?D s = 0) ss = Some (ss ! i)"
      using h z by (auto simp: find_Some_iff)
    with ne m show "nearest_settlement geo c ss = (Some (ss ! i), Some 0)"
      by (simp add: nearest_settlement_spec nearest_spec_def Let_def MATCH_RADIUS_KM_def)
  }
  {
    assume h: "\<forall>s\<in>set ss. MATCH_RADIUS_KM < ?D s"
    show "nearest_settlement geo c ss = (None, None)"
    proof (cases "ss = []")
      case True
      then show ?thesis by (simp add: nearest_settlement_spec nearest_spec_def)
    next
      case False
      with h have "MATCH_RADIUS_KM < Min (?D ` set ss)" by simp
      then have nle: "\<not> Min (?D ` set ss) \<le> MATCH_RADIUS_KM" by (rule less_le_not_le [THEN iffD1, THEN conjunct2])
      show ?thesis
        unfolding nearest_settlement_spec nearest_spec_def Let_def
        using False nle by (simp only: list.set_map if_False)
    qed
  }
qed

theorem nearest_settlement_correct_witness:
  "(\<forall>a b. 0 \<le> flat_km a b)
   \<and> (0::nat) < length [example_settlement ''Acton'' 52 1, example_settlement ''Boxted'' 52 1]
   \<and> flat_km (52, 1) (52, 1) = 0
   \<and> nearest_settlement flat_km (52, 1)
        [example_settlement ''Acton'' 52 1, example_settlement ''Boxted'' 52 1]
       = (Some (example_settlement ''Acton'' 52 1), Some 0)
   \<and> MATCH_RADIUS_KM < flat_km (52.02, 1) (52, 1)
   \<and> nearest_settlement flat_km (52.02, 1)
        [example_settlement ''Acton'' 52 1, example_settlement ''Boxted'' 52 1]
       = (None, None)"
proof -
  let ?ss = "[example_settlement ''Acton'' 52 1, example_settlement ''Boxted'' 52 1]"
  have nonneg: "\<forall>a b. 0 \<le> flat_km a b"
    by (simp add: flat_km_def)
  have zero: "flat_km (52, 1) (52, 1) = 0"
    by (simp add: flat_km_def)
  have far: "MATCH_RADIUS_KM < flat_km (52.02, 1) (52, 1)"
    by (simp add: flat_km_def MATCH_RADIUS_KM_def)
  have at: "(\<forall>a b. 0 \<le> flat_km a b) \<and> 0 < length ?ss \<and> (lat (?ss ! 0), lon (?ss ! 0)) = (52, 1)
      \<and> flat_km (52, 1) (52, 1) = 0
      \<and> (\<forall>j<0. flat_km (52, 1) (lat (?ss ! j), lon (?ss ! j)) \<noteq> 0)"
    using nonneg zero by (simp add: example_settlement_def)
  have all_far: "\<forall>s\<in>set ?ss. MATCH_RADIUS_KM < flat_km (52.02, 1) (lat s, lon s)"
    using far by (simp add: example_settlement_def)
  from nearest_settlement_correct [where geo = flat_km and c = "(52, 1)" and i = 0 and ss = ?ss] at
  have hit: "nearest_settlement flat_km (52, 1) ?ss = (Some (?ss ! 0), Some 0)"
    by blast
  from nearest_settlement_correct [where geo = flat_km and c = "(52.02, 1)" and ss = ?ss] all_far
  have miss: "nearest_settlement flat_km (52.02, 1) ?ss = (None, None)"
    by blast
  from nonneg zero far hit miss show ?thesis by simp
qed

text \<open>
  C10. On an empty gazetteer \<^verbatim>\<open>nearest_settlement\<close> returns \<^verbatim>\<open>(None, None)\<close>: the running
  minimum stays infinite.
\<close>

theorem nearest_settlement_empty:
  "nearest_settlement geo c [] = (None, None)"
  by (simp add: nearest_settlement_def)

subsection \<open>Main build\<close>

lemma match_photos_snoc:
  "match_photos geo stem strftime ss (ps @ [p]) st =
     match_step geo stem strftime ss p (match_photos geo stem strftime ss ps st)"
  by (induction ps arbitrary: st) simp_all

lemma match_step_none:
  "matched_name geo ss p = None \<Longrightarrow> match_step geo stem strftime ss p st = st"
  by (auto simp: matched_name_def match_step_def split: prod.splits option.splits)

lemma match_step_claimed:
  "matched_name geo ss p = Some n \<Longrightarrow> n \<in> N \<Longrightarrow>
   match_step geo stem strftime ss p (N, V, W) = (N, V, W)"
  by (auto simp: matched_name_def match_step_def split: prod.splits option.splits)

lemma match_step_new:
  "matched_name geo ss p = Some n \<Longrightarrow> n \<notin> N \<Longrightarrow>
   match_step geo stem strftime ss p (N, V, W) =
     (insert n N, V @ [entry_of stem strftime n p], W @ [(stem (path p) @ ''.jpg'', img p)])"
  by (auto simp: matched_name_def match_step_def entry_of_def Let_def split: prod.splits option.splits)

lemma matched_name_settlement:
  assumes "matched_name geo ss p = Some n"
  shows "\<exists>s\<in>set ss. \<exists>d. nearest_settlement geo (coords p) ss = (Some s, Some d) \<and> name s = n"
proof -
  from assms obtain s x where n: "nearest_settlement geo (coords p) ss = (Some s, x)" "name s = n"
    by (auto simp: matched_name_def split: prod.splits option.splits)
  then obtain d where x: "x = Some d"
    by (auto simp: nearest_settlement_def split: prod.splits pyfloat.splits if_splits)
  with n have "nearest_spec geo (coords p) ss = (Some s, Some d)"
    by (simp add: nearest_settlement_spec)
  from nearest_spec_Some [OF this] have "s \<in> set ss" by auto
  with n x show ?thesis by auto
qed

lemma match_photos_inv:
  "match_photos geo stem strftime ss ps ({}, [], []) = (N, V, W) \<Longrightarrow>
   N = {n. \<exists>p\<in>set ps. matched_name geo ss p = Some n}
   \<and> distinct (map v_name V) \<and> set (map v_name V) = N
   \<and> length W = length V
   \<and> (\<forall>v\<in>set V. \<exists>i<length ps. matched_name geo ss (ps ! i) = Some (v_name v)
         \<and> Some (v_name v) \<notin> matched_name geo ss ` set (take i ps)
         \<and> v = entry_of stem strftime (v_name v) (ps ! i))"
proof (induction ps arbitrary: N V W rule: rev_induct)
  case Nil
  then show ?case by simp
next
  case (snoc p ps)
  obtain N0 V0 W0 where st: "match_photos geo stem strftime ss ps ({}, [], []) = (N0, V0, W0)"
    by (cases "match_photos geo stem strftime ss ps ({}, [], [])") auto
  note ih = snoc.IH [OF st]
  from ih have N0: "N0 = {n. \<exists>p\<in>set ps. matched_name geo ss p = Some n}" by simp
  have old: "\<forall>v\<in>set V0. \<exists>i<length (ps @ [p]). matched_name geo ss ((ps @ [p]) ! i) = Some (v_name v)
         \<and> Some (v_name v) \<notin> matched_name geo ss ` set (take i (ps @ [p]))
         \<and> v = entry_of stem strftime (v_name v) ((ps @ [p]) ! i)"
  proof
    fix v assume "v \<in> set V0"
    with ih obtain i where i: "i < length ps" "matched_name geo ss (ps ! i) = Some (v_name v)"
      "Some (v_name v) \<notin> matched_name geo ss ` set (take i ps)"
      "v = entry_of stem strftime (v_name v) (ps ! i)" by blast
    then show "\<exists>i<length (ps @ [p]). matched_name geo ss ((ps @ [p]) ! i) = Some (v_name v)
         \<and> Some (v_name v) \<notin> matched_name geo ss ` set (take i (ps @ [p]))
         \<and> v = entry_of stem strftime (v_name v) ((ps @ [p]) ! i)"
      by (intro exI [of _ i]) (simp add: nth_append)
  qed
  from snoc.prems st have step: "match_step geo stem strftime ss p (N0, V0, W0) = (N, V, W)"
    by (simp add: match_photos_snoc)
  show ?case
  proof (cases "matched_name geo ss p")
    case None
    with step have "(N, V, W) = (N0, V0, W0)" by (simp add: match_step_none)
    with ih old None N0 show ?thesis by auto
  next
    case (Some n)
    show ?thesis
    proof (cases "n \<in> N0")
      case True
      with step Some have "(N, V, W) = (N0, V0, W0)" by (simp add: match_step_claimed)
      with ih old Some True N0 show ?thesis by auto
    next
      case False
      with step Some have eq: "N = insert n N0" "V = V0 @ [entry_of stem strftime n p]"
        "W = W0 @ [(stem (path p) @ ''.jpg'', img p)]" by (simp_all add: match_step_new)
      have vn: "v_name (entry_of stem strftime n p) = n" by (simp add: entry_of_def)
      have new: "\<exists>i<length (ps @ [p]). matched_name geo ss ((ps @ [p]) ! i) = Some n
         \<and> Some n \<notin> matched_name geo ss ` set (take i (ps @ [p]))
         \<and> entry_of stem strftime n p = entry_of stem strftime n ((ps @ [p]) ! i)"
        using Some False N0 by (intro exI [of _ "length ps"]) auto
      have 1: "N = {n. \<exists>q\<in>set (ps @ [p]). matched_name geo ss q = Some n}"
        using eq(1) N0 Some by auto
      have 2: "distinct (map v_name V)" using ih False eq(2) vn by auto
      have 3: "set (map v_name V) = N" using ih eq vn by auto
      have 4: "length W = length V" using ih eq by simp
      have 5: "\<forall>v\<in>set V. \<exists>i<length (ps @ [p]). matched_name geo ss ((ps @ [p]) ! i) = Some (v_name v)
         \<and> Some (v_name v) \<notin> matched_name geo ss ` set (take i (ps @ [p]))
         \<and> v = entry_of stem strftime (v_name v) ((ps @ [p]) ! i)"
        using old new vn eq(2) by auto
      from 1 2 3 4 5 show ?thesis by blast
    qed
  qed
qed


lemma unvisited_list_names:
  "map u_name (unvisited_list geo N ss) = filter (\<lambda>n. n \<notin> N) (map name ss)"
  by (induction ss) simp_all

lemma unvisited_list_entries:
  "u \<in> set (unvisited_list geo N ss) \<Longrightarrow>
   \<exists>s\<in>set ss. name s \<notin> N \<and> u_name u = name s \<and> u_lat u = lat s \<and> u_lon u = lon s
     \<and> u_distance_km u = py_round1 (geo HOME_COORDS (lat s, lon s))"
  by (induction ss) (auto split: if_splits)

lemma build_result:
  "\<exists>photos N V W. deduplicate geo raw = Inr photos
     \<and> match_photos geo stem strftime ss photos ({}, [], []) = (N, V, W)
     \<and> build geo stem strftime today raw ss =
         Inr \<lparr>data_json = \<lparr>d_visited = V, d_unvisited = unvisited_list geo N ss,
                 d_stats = \<lparr>s_visited = length V,
                            s_total = length V + length (unvisited_list geo N ss),
                            s_generated = today\<rparr>\<rparr>,
              csv_rows = map (\<lambda>s. (u_name s, u_distance_km s))
                           (sort_key u_distance_km (unvisited_list geo N ss)),
              web_photos = W\<rparr>"
proof -
  from deduplicate_spec [of geo raw] obtain photos where d: "deduplicate geo raw = Inr photos"
    by blast
  obtain N V W where m: "match_photos geo stem strftime ss photos ({}, [], []) = (N, V, W)"
    by (cases "match_photos geo stem strftime ss photos ({}, [], [])") auto
  from d m show ?thesis by (simp add: build_def and_then_def Let_def)
qed

lemma matched_names_subset:
  "{n. \<exists>p\<in>set photos. matched_name geo ss p = Some n} \<subseteq> set (map name ss)"
proof
  fix n assume "n \<in> {n. \<exists>p\<in>set photos. matched_name geo ss p = Some n}"
  then obtain p where "matched_name geo ss p = Some n" by blast
  from matched_name_settlement [OF this] show "n \<in> set (map name ss)" by auto
qed

lemma partition_count:
  assumes "distinct names" and "distinct vs" and "set vs \<subseteq> set names"
  shows "length vs + length (filter (\<lambda>n. n \<notin> set vs) names) = length names"
proof -
  have "length vs = card (set vs)" using assms(2) by (simp add: distinct_card)
  moreover have "length (filter (\<lambda>n. n \<notin> set vs) names) = card (set names - set vs)"
  proof -
    have "{x. x \<notin> set vs} \<inter> set names = set names - set vs" by auto
    with assms(1) show ?thesis by (simp add: distinct_length_filter)
  qed
  moreover have "card (set vs) + card (set names - set vs) = card (set names)"
  proof -
    have "card (set vs \<union> (set names - set vs)) = card (set vs) + card (set names - set vs)"
      by (rule card_Un_disjoint) auto
    moreover have "set vs \<union> (set names - set vs) = set names" using assms(3) by auto
    ultimately show ?thesis by simp
  qed
  moreover have "length names = card (set names)" using assms(1) by (simp add: distinct_card)
  ultimately show ?thesis by simp
qed

lemma py_round1_tenth: "\<exists>k::int. py_round1 x = of_int k / 10"
  by (simp add: py_round1_def Let_def)

lemma py_round1_close: "\<bar>py_round1 x - x\<bar> \<le> 1 / 20"
proof -
  define y where "y = x * 10"
  define f where "f = \<lfloor>y\<rfloor>"
  define r where "r = y - of_int f"
  define c where "c = (if r < 1 / 2 then f else if 1 / 2 < r then f + 1 else if even f then f else f + 1)"
  have p: "py_round1 x = of_int c / 10"
    by (simp add: py_round1_def Let_def y_def f_def r_def c_def)
  have r0: "0 \<le> r" and r1: "r < 1" unfolding r_def f_def by linarith+
  have "c = f \<and> r \<le> 1 / 2 \<or> c = f + 1 \<and> 1 / 2 \<le> r"
    unfolding c_def by auto
  then have "- (1 / 2) \<le> of_int c - y \<and> of_int c - y \<le> 1 / 2"
    using r0 r1 unfolding r_def by auto
  then show ?thesis
    unfolding p y_def abs_le_iff by auto
qed

lemma example_build:
  "build flat_km example_stem example_strftime ''2024-06-02'' example_raw example_gazetteer
     = Inr example_output"
  by (simp add: build_def deduplicate_def and_then_def py_max_def match_step_def
      nearest_settlement_def flat_km_def example_photo_def example_settlement_def
      example_stem_def example_strftime_def DEDUP_RADIUS_M_def MATCH_RADIUS_KM_def
      HOME_COORDS_def py_round1_def datetime_min_def Let_def
      example_raw_def example_gazetteer_def example_output_def)

text \<open>
  C5. An iteration of the matching loop whose photo matches a settlement already in
  \<^verbatim>\<open>visited_names\<close> leaves the whole state unchanged: no entry, no written photo, no new
  name. After the loop the names of the visited entries are distinct and are exactly the
  names matched by some photo; there is one written photo for each entry; and every entry
  is the entry of the first photo, in processing order, that matches a settlement of that
  name. \<^verbatim>\<open>build\<close> always returns, with distinct names in its visited list.
\<close>

theorem first_claim_wins:
  "(\<forall>s d. nearest_settlement geo (coords p) ss = (Some s, d) \<and> name s \<in> visited_names \<longrightarrow>
      match_step geo stem strftime ss p (visited_names, visited, written)
        = (visited_names, visited, written))
   \<and> (\<forall>N V W. match_photos geo stem strftime ss photos ({}, [], []) = (N, V, W) \<longrightarrow>
        distinct (map v_name V) \<and> set (map v_name V) = N \<and> length W = length V
        \<and> N = {n. \<exists>q\<in>set photos. matched_name geo ss q = Some n}
        \<and> (\<forall>v\<in>set V. \<exists>i<length photos.
              matched_name geo ss (photos ! i) = Some (v_name v)
              \<and> Some (v_name v) \<notin> matched_name geo ss ` set (take i photos)
              \<and> v = entry_of stem strftime (v_name v) (photos ! i)))
   \<and> (\<exists>out. build geo stem strftime today raw ss = Inr out
         \<and> distinct (map v_name (d_visited (data_json out)))
         \<and> length (web_photos out) = length (d_visited (data_json out)))"
proof (intro conjI allI impI)
  fix s d
  assume "nearest_settlement geo (coords p) ss = (Some s, d) \<and> name s \<in> visited_names"
  then show "match_step geo stem strftime ss p (visited_names, visited, written)
        = (visited_names, visited, written)"
    by (simp add: match_step_def)
next
  fix N V W
  assume m: "match_photos geo stem strftime ss photos ({}, [], []) = (N, V, W)"
  note inv = match_photos_inv [OF m]
  from inv show "distinct (map v_name V)" by blast
  from inv show "set (map v_name V) = N" by blast
  from inv show "length W = length V" by blast
  from inv show "N = {n. \<exists>q\<in>set photos. matched_name geo ss q = Some n}" by blast
  from inv show "\<forall>v\<in>set V. \<exists>i<length photos.
              matched_name geo ss (photos ! i) = Some (v_name v)
              \<and> Some (v_name v) \<notin> matched_name geo ss ` set (take i photos)
              \<and> v = entry_of stem strftime (v_name v) (photos ! i)" by blast
next
  from build_result [of geo raw stem strftime ss today]
  obtain photos N V W where m: "match_photos geo stem strftime ss photos ({}, [], []) = (N, V, W)"
    and b: "build geo stem strftime today raw ss =
         Inr \<lparr>data_json = \<lparr>d_visited = V, d_unvisited = unvisited_list geo N ss,
                 d_stats = \<lparr>s_visited = length V,
                            s_total = length V + length (unvisited_list geo N ss),
                            s_generated = today\<rparr>\<rparr>,
              csv_rows = map (\<lambda>s. (u_name s, u_distance_km s))
                           (sort_key u_distance_km (unvisited_list geo N ss)),
              web_photos = W\<rparr>" by blast
  from match_photos_inv [OF m] have "distinct (map v_name V)" "length W = length V" by blast+
  with b show "\<exists>out. build geo stem strftime today raw ss = Inr out
         \<and> distinct (map v_name (d_visited (data_json out)))
         \<and> length (web_photos out) = length (d_visited (data_json out))" by simp
qed

theorem first_claim_wins_witness:
  "nearest_settlement flat_km (coords (example_photo ''b.jpg'' (52.002, 1) 0))
       [example_settlement ''Acton'' 52 1]
     = (Some (example_settlement ''Acton'' 52 1), Some 0.222)
   \<and> name (example_settlement ''Acton'' 52 1) \<in> {''Acton''}
   \<and> match_step flat_km example_stem example_strftime [example_settlement ''Acton'' 52 1]
        (example_photo ''b.jpg'' (52.002, 1) 0)
        ({''Acton''}, [entry_of example_stem example_strftime ''Acton'' (example_photo ''c.jpg'' (52.0011, 1) 12)],
         [(''c.jpg'', 0)])
     = ({''Acton''}, [entry_of example_stem example_strftime ''Acton'' (example_photo ''c.jpg'' (52.0011, 1) 12)],
         [(''c.jpg'', 0)])
   \<and> match_photos flat_km example_stem example_strftime [example_settlement ''Acton'' 52 1]
        [example_photo ''c.jpg'' (52.0011, 1) 12, example_photo ''b.jpg'' (52.002, 1) 0] ({}, [], [])
     = ({''Acton''}, [entry_of example_stem example_strftime ''Acton'' (example_photo ''c.jpg'' (52.0011, 1) 12)],
         [(''c.jpg'', 0)])"
proof -
  let ?A = "example_settlement ''Acton'' 52 1"
  let ?b = "example_photo ''b.jpg'' (52.002, 1) 0"
  let ?c = "example_photo ''c.jpg'' (52.0011, 1) 12"
  let ?st = "({''Acton''}, [entry_of example_stem example_strftime ''Acton'' ?c], [(''c.jpg'', 0::nat)])"
  have n: "nearest_settlement flat_km (coords ?b) [?A] = (Some ?A, Some 0.222)"
    by (simp add: match_step_def nearest_settlement_def flat_km_def example_photo_def
      example_settlement_def example_stem_def example_strftime_def MATCH_RADIUS_KM_def
      datetime_min_def entry_of_def matched_name_def Let_def)
  have a: "name ?A \<in> {''Acton''}"
    by (simp add: example_settlement_def)
  have m: "match_photos flat_km example_stem example_strftime [?A] [?c, ?b] ({}, [], []) = ?st"
    by (simp add: match_step_def nearest_settlement_def flat_km_def example_photo_def
      example_settlement_def example_stem_def example_strftime_def MATCH_RADIUS_KM_def
      datetime_min_def entry_of_def matched_name_def Let_def)
  from first_claim_wins [where geo = flat_km and p = ?b and ss = "[?A]" and visited_names = "{''Acton''}"
      and visited = "[entry_of example_stem example_strftime ''Acton'' ?c]" and written = "[(''c.jpg'', 0)]"
      and stem = example_stem and strftime = example_strftime] n a
  have "match_step flat_km example_stem example_strftime [?A] ?b ?st = ?st" by blast
  with n a m show ?thesis by simp
qed

text \<open>
  C9. In the output of \<^verbatim>\<open>build\<close>, every visited entry carries the name of the settlement
  matched for some deduplicated photo and that photo's coordinates, so its coordinates
  differ from the gazetteer's whenever the photo is not at the settlement's coordinates;
  every unvisited entry carries the name and the gazetteer coordinates of a settlement.
\<close>

theorem visited_coordinates:
  "\<exists>out photos. build geo stem strftime today raw ss = Inr out \<and> deduplicate geo raw = Inr photos
     \<and> (\<forall>v\<in>set (d_visited (data_json out)). \<exists>p\<in>set photos. \<exists>s\<in>set ss. \<exists>d.
           nearest_settlement geo (coords p) ss = (Some s, Some d) \<and> v_name v = name s
           \<and> (v_lat v, v_lon v) = coords p
           \<and> (coords p \<noteq> (lat s, lon s) \<longrightarrow> (v_lat v, v_lon v) \<noteq> (lat s, lon s)))
     \<and> (\<forall>u\<in>set (d_unvisited (data_json out)). \<exists>s\<in>set ss.
           u_name u = name s \<and> u_lat u = lat s \<and> u_lon u = lon s)"
proof -
  from build_result [of geo raw stem strftime ss today]
  obtain photos N V W where d: "deduplicate geo raw = Inr photos"
    and m: "match_photos geo stem strftime ss photos ({}, [], []) = (N, V, W)"
    and b: "build geo stem strftime today raw ss =
         Inr \<lparr>data_json = \<lparr>d_visited = V, d_unvisited = unvisited_list geo N ss,
                 d_stats = \<lparr>s_visited = length V,
                            s_total = length V + length (unvisited_list geo N ss),
                            s_generated = today\<rparr>\<rparr>,
              csv_rows = map (\<lambda>s. (u_name s, u_distance_km s))
                           (sort_key u_distance_km (unvisited_list geo N ss)),
              web_photos = W\<rparr>" by blast
  note inv = match_photos_inv [OF m]
  have vis: "\<forall>v\<in>set V. \<exists>p\<in>set photos. \<exists>s\<in>set ss. \<exists>d.
           nearest_settlement geo (coords p) ss = (Some s, Some d) \<and> v_name v = name s
           \<and> (v_lat v, v_lon v) = coords p
           \<and> (coords p \<noteq> (lat s, lon s) \<longrightarrow> (v_lat v, v_lon v) \<noteq> (lat s, lon s))"
  proof
    fix v assume "v \<in> set V"
    with inv obtain i where i: "i < length photos"
      "matched_name geo ss (photos ! i) = Some (v_name v)"
      "v = entry_of stem strftime (v_name v) (photos ! i)" by blast
    from matched_name_settlement [OF i(2)] obtain s d where s: "s \<in> set ss"
      "nearest_settlement geo (coords (photos ! i)) ss = (Some s, Some d)" "name s = v_name v"
      by blast
    have "v_lat (entry_of stem strftime (v_name v) (photos ! i)) = fst (coords (photos ! i))"
      "v_lon (entry_of stem strftime (v_name v) (photos ! i)) = snd (coords (photos ! i))"
      by (simp_all add: entry_of_def)
    with i(3) have c: "(v_lat v, v_lon v) = coords (photos ! i)" by simp
    from i(1) have "photos ! i \<in> set photos" by simp
    with s c show "\<exists>p\<in>set photos. \<exists>s\<in>set ss. \<exists>d.
           nearest_settlement geo (coords p) ss = (Some s, Some d) \<and> v_name v = name s
           \<and> (v_lat v, v_lon v) = coords p
           \<and> (coords p \<noteq> (lat s, lon s) \<longrightarrow> (v_lat v, v_lon v) \<noteq> (lat s, lon s))"
      by (intro bexI [of _ "photos ! i"] bexI [of _ s] exI [of _ d]) simp_all
  qed
  have unv: "\<forall>u\<in>set (unvisited_list geo N ss). \<exists>s\<in>set ss.
           u_name u = name s \<and> u_lat u = lat s \<and> u_lon u = lon s"
    using unvisited_list_entries [of _ geo N ss] by blast
  from b d vis unv show ?thesis by simp
qed

theorem visited_coordinates_witness:
  "build flat_km example_stem example_strftime ''2024-06-02'' example_raw example_gazetteer
     = Inr example_output
   \<and> map (\<lambda>v. (v_name v, v_lat v, v_lon v)) (d_visited (data_json example_output))
       = [(''Acton'', 52.0011, 1)]
   \<and> (\<exists>(p::photo) s. s \<in> set example_gazetteer \<and> name s = ''Acton'' \<and> coords p = (52.0011, 1)
         \<and> (lat s, lon s) = (52, 1)
         \<and> fst (nearest_settlement flat_km (coords p) example_gazetteer) = Some s)
   \<and> map (\<lambda>u. (u_name u, u_lat u, u_lon u)) (d_unvisited (data_json example_output))
       = [(''Boxted'', 52.3, 0.9), (''Cavendish'', 52.25, 0.9)]"
proof -
  let ?v = "\<lparr>v_name = ''Acton'', v_lat = 52.0011, v_lon = 1,
             v_photo = ''photos/c.jpg'', v_date = Some ''2024-06-01''\<rparr>"
  from visited_coordinates [where geo = flat_km and stem = example_stem
      and strftime = example_strftime and today = "''2024-06-02''" and raw = example_raw
      and ss = example_gazetteer]
  obtain out and photos :: "photo list"
    where o: "build flat_km example_stem example_strftime ''2024-06-02''
        example_raw example_gazetteer = Inr out"
    and vis: "\<forall>v\<in>set (d_visited (data_json out)). \<exists>p\<in>set photos. \<exists>s\<in>set example_gazetteer. \<exists>d.
           nearest_settlement flat_km (coords p) example_gazetteer = (Some s, Some d)
           \<and> v_name v = name s \<and> (v_lat v, v_lon v) = coords p
           \<and> (coords p \<noteq> (lat s, lon s) \<longrightarrow> (v_lat v, v_lon v) \<noteq> (lat s, lon s))"
    by blast
  from o have out: "out = example_output" by (simp add: example_build)
  have "?v \<in> set (d_visited (data_json out))"
    by (simp add: out example_output_def)
  with vis obtain p :: photo and s and d where ps: "s \<in> set example_gazetteer"
    "nearest_settlement flat_km (coords p) example_gazetteer = (Some s, Some d)"
    "v_name ?v = name s" "(v_lat ?v, v_lon ?v) = coords p" by blast
  have "\<forall>t\<in>set example_gazetteer. name t = ''Acton'' \<longrightarrow> (lat t, lon t) = (52, 1)"
    by (simp add: example_gazetteer_def example_settlement_def)
  with ps(1,3) have "(lat s, lon s) = (52, 1)" by simp
  with ps have "s \<in> set example_gazetteer \<and> name s = ''Acton'' \<and> coords p = (52.0011, 1)
         \<and> (lat s, lon s) = (52, 1)
         \<and> fst (nearest_settlement flat_km (coords p) example_gazetteer) = Some s"
    by simp
  then have "\<exists>(p::photo) s. s \<in> set example_gazetteer \<and> name s = ''Acton'' \<and> coords p = (52.0011, 1)
         \<and> (lat s, lon s) = (52, 1)
         \<and> fst (nearest_settlement flat_km (coords p) example_gazetteer) = Some s"
    by blast
  moreover have "map (\<lambda>v. (v_name v, v_lat v, v_lon v)) (d_visited (data_json example_output))
       = [(''Acton'', 52.0011, 1)]"
    by (simp add: example_output_def)
  moreover have "map (\<lambda>u. (u_name u, u_lat u, u_lon u)) (d_unvisited (data_json example_output))
       = [(''Boxted'', 52.3, 0.9), (''Cavendish'', 52.25, 0.9)]"
    by (simp add: example_output_def)
  ultimately show ?thesis using example_build by blast
qed

text \<open>
  C1, as amended. For every gazetteer and every list of photos \<^verbatim>\<open>build\<close> returns; the names
  in its visited and unvisited lists are disjoint, their union is the set of gazetteer
  names, and \<^verbatim>\<open>stats.visited + len(unvisited) = stats.total\<close>. Where the gazetteer names
  are pairwise distinct, \<^verbatim>\<open>len(visited) + len(unvisited)\<close> is the gazetteer size.
\<close>

theorem partition_invariant:
  "\<exists>out. build geo stem strftime today raw ss = Inr out
     \<and> set (map v_name (d_visited (data_json out))) \<inter> set (map u_name (d_unvisited (data_json out))) = {}
     \<and> set (map v_name (d_visited (data_json out))) \<union> set (map u_name (d_unvisited (data_json out)))
         = set (map name ss)
     \<and> s_visited (d_stats (data_json out)) + length (d_unvisited (data_json out))
         = s_total (d_stats (data_json out))
     \<and> (distinct (map name ss) \<longrightarrow>
          length (d_visited (data_json out)) + length (d_unvisited (data_json out)) = length ss)"
proof -
  from build_result [of geo raw stem strftime ss today]
  obtain photos N V W where d: "deduplicate geo raw = Inr photos"
    and m: "match_photos geo stem strftime ss photos ({}, [], []) = (N, V, W)"
    and b: "build geo stem strftime today raw ss =
         Inr \<lparr>data_json = \<lparr>d_visited = V, d_unvisited = unvisited_list geo N ss,
                 d_stats = \<lparr>s_visited = length V,
                            s_total = length V + length (unvisited_list geo N ss),
                            s_generated = today\<rparr>\<rparr>,
              csv_rows = map (\<lambda>s. (u_name s, u_distance_km s))
                           (sort_key u_distance_km (unvisited_list geo N ss)),
              web_photos = W\<rparr>" by blast
  let ?U = "unvisited_list geo N ss"
  note inv = match_photos_inv [OF m]
  from inv have N: "set (map v_name V) = N" and dv: "distinct (map v_name V)" by blast+
  from inv matched_names_subset [of photos geo ss] have sub: "N \<subseteq> set (map name ss)" by blast
  have un: "map u_name ?U = filter (\<lambda>n. n \<notin> N) (map name ss)"
    by (rule unvisited_list_names)
  have 1: "set (map v_name V) \<inter> set (map u_name ?U) = {}"
    unfolding un N by auto
  have 2: "set (map v_name V) \<union> set (map u_name ?U) = set (map name ss)"
    unfolding un N using sub by auto
  have 3: "distinct (map name ss) \<longrightarrow> length V + length ?U = length ss"
  proof
    assume dn: "distinct (map name ss)"
    from sub N have "set (map v_name V) \<subseteq> set (map name ss)" by simp
    from partition_count [OF dn dv this]
    have "length (map v_name V) + length (map u_name ?U) = length (map name ss)"
      unfolding un N .
    then show "length V + length ?U = length ss" by simp
  qed
  from b 1 2 3 show ?thesis by simp
qed

theorem partition_invariant_witness:
  "distinct (map name example_gazetteer)
   \<and> build flat_km example_stem example_strftime ''2024-06-02'' example_raw example_gazetteer
       = Inr example_output
   \<and> length (d_visited (data_json example_output)) + length (d_unvisited (data_json example_output))
       = length example_gazetteer
   \<and> length example_gazetteer = 3"
proof -
  have dn: "distinct (map name example_gazetteer)"
    by (simp add: example_gazetteer_def example_settlement_def)
  from partition_invariant [where geo = flat_km and stem = example_stem
      and strftime = example_strftime and today = "''2024-06-02''" and raw = example_raw
      and ss = example_gazetteer] dn
  obtain out where o: "build flat_km example_stem example_strftime ''2024-06-02''
        example_raw example_gazetteer = Inr out"
    and l: "length (d_visited (data_json out)) + length (d_unvisited (data_json out))
        = length example_gazetteer"
    by blast
  from o have "out = example_output" by (simp add: example_build)
  with l dn example_build show ?thesis by (simp add: example_gazetteer_def)
qed

text \<open>
  C1, as stated, fails on a gazetteer with a repeated name: one photo at the first of two
  settlements named Acton claims the name, both settlements leave the unvisited list, and
  one visited entry plus no unvisited entry stand for two settlements.
\<close>

theorem partition_counterexample:
  "(case build flat_km example_stem example_strftime ''2024-06-02''
          [example_photo ''a.jpg'' (52, 1) 9]
          [example_settlement ''Acton'' 52 1, example_settlement ''Acton'' 52.5 1] of
      Inl e \<Rightarrow> False
    | Inr out \<Rightarrow>
        length (d_visited (data_json out)) = 1 \<and> length (d_unvisited (data_json out)) = 0
        \<and> length (d_visited (data_json out)) + length (d_unvisited (data_json out))
            \<noteq> length [example_settlement ''Acton'' 52 1, example_settlement ''Acton'' 52.5 1])"
  by (simp add: build_def deduplicate_def and_then_def py_max_def match_step_def
      nearest_settlement_def flat_km_def example_photo_def example_settlement_def
      example_stem_def example_strftime_def DEDUP_RADIUS_M_def MATCH_RADIUS_KM_def
      HOME_COORDS_def py_round1_def datetime_min_def Let_def)

text \<open>
  C8. \<^verbatim>\<open>build\<close> returns CSV rows that are non-decreasing in the distance column and are
  the (name, distance) pairs of the unvisited list, reordered; each distance is
  \<^verbatim>\<open>round(d, 1)\<close> of the distance from \<open>HOME_COORDS\<close> to a settlement, a multiple of one
  tenth within 0.05 of \<open>d\<close>.
\<close>

theorem csv_sorted:
  "(\<exists>out. build geo stem strftime today raw ss = Inr out
      \<and> sorted (map snd (csv_rows out))
      \<and> mset (csv_rows out)
          = mset (map (\<lambda>u. (u_name u, u_distance_km u)) (d_unvisited (data_json out)))
      \<and> (\<forall>u\<in>set (d_unvisited (data_json out)). \<exists>s\<in>set ss.
            u_name u = name s \<and> u_distance_km u = py_round1 (geo HOME_COORDS (lat s, lon s))))
   \<and> (\<exists>k::int. py_round1 x = of_int k / 10) \<and> \<bar>py_round1 x - x\<bar> \<le> 1 / 20"
proof (intro conjI)
  from build_result [of geo raw stem strftime ss today]
  obtain N V W where
    b: "build geo stem strftime today raw ss =
         Inr \<lparr>data_json = \<lparr>d_visited = V, d_unvisited = unvisited_list geo N ss,
                 d_stats = \<lparr>s_visited = length V,
                            s_total = length V + length (unvisited_list geo N ss),
                            s_generated = today\<rparr>\<rparr>,
              csv_rows = map (\<lambda>s. (u_name s, u_distance_km s))
                           (sort_key u_distance_km (unvisited_list geo N ss)),
              web_photos = W\<rparr>" by blast
  let ?U = "unvisited_list geo N ss"
  let ?rows = "map (\<lambda>s. (u_name s, u_distance_km s)) (sort_key u_distance_km ?U)"
  have "map snd ?rows = map u_distance_km (sort_key u_distance_km ?U)"
    by (simp add: comp_def)
  then have 1: "sorted (map snd ?rows)" by (simp only: sorted_sort_key)
  have 2: "mset ?rows = mset (map (\<lambda>u. (u_name u, u_distance_km u)) ?U)"
    by simp
  have 3: "\<forall>u\<in>set ?U. \<exists>s\<in>set ss.
            u_name u = name s \<and> u_distance_km u = py_round1 (geo HOME_COORDS (lat s, lon s))"
    using unvisited_list_entries [of _ geo N ss] by blast
  from b 1 2 3 show "\<exists>out. build geo stem strftime today raw ss = Inr out
      \<and> sorted (map snd (csv_rows out))
      \<and> mset (csv_rows out)
          = mset (map (\<lambda>u. (u_name u, u_distance_km u)) (d_unvisited (data_json out)))
      \<and> (\<forall>u\<in>set (d_unvisited (data_json out)). \<exists>s\<in>set ss.
            u_name u = name s \<and> u_distance_km u = py_round1 (geo HOME_COORDS (lat s, lon s)))"
    by simp
next
  show "\<exists>k::int. py_round1 x = of_int k / 10" by (rule py_round1_tenth)
  show "\<bar>py_round1 x - x\<bar> \<le> 1 / 20" by (rule py_round1_close)
qed

theorem csv_sorted_witness:
  "build flat_km example_stem example_strftime ''2024-06-02'' example_raw example_gazetteer
     = Inr example_output
   \<and> map u_distance_km (d_unvisited (data_json example_output)) = [7.3, 1.8]
   \<and> csv_rows example_output = [(''Cavendish'', 1.8), (''Boxted'', 7.3)]
   \<and> sorted (map snd (csv_rows example_output))
   \<and> py_round1 (flat_km HOME_COORDS (52.3, 0.9)) = 7.3"
proof -
  from csv_sorted [where geo = flat_km and stem = example_stem
      and strftime = example_strftime and today = "''2024-06-02''" and raw = example_raw
      and ss = example_gazetteer]
  obtain out where o: "build flat_km example_stem example_strftime ''2024-06-02''
        example_raw example_gazetteer = Inr out"
    and srt: "sorted (map snd (csv_rows out))"
    by blast
  from o have "out = example_output" by (simp add: example_build)
  with srt have "sorted (map snd (csv_rows example_output))" by simp
  moreover have "map u_distance_km (d_unvisited (data_json example_output)) = [7.3, 1.8]"
    by (simp add: example_output_def)
  moreover have "csv_rows example_output = [(''Cavendish'', 1.8), (''Boxted'', 7.3)]"
    by (simp add: example_output_def)
  moreover have "py_round1 (flat_km HOME_COORDS (52.3, 0.9)) = 7.3"
    by (simp add: py_round1_def flat_km_def HOME_COORDS_def Let_def)
  ultimately show ?thesis using example_build by blast
qed

end
